theory Spec2Isabelle
  imports Complex_Main
begin

section \<open>Arrays, windows and structuring elements\<close>

text \<open>
  The program (\<^verbatim>\<open>porespy/network_extraction/__snow__.py\<close>) works on N-dimensional
  numpy arrays. An array index is the list of its coordinates. A float array is a
  \<open>field\<close>: its shape and the value at every index (values are idealised as reals: the
  program compares them, takes maxima, adds the constant 2 to non-positive entries and
  compares them with Euclidean distances between integer points; the rounding of
  float64 is not modelled). A boolean array of a known shape is the set of the indices where it is
  \<open>True\<close>. A tuple of slices (a window into an array) is the list of its
  \<open>(start, stop)\<close> pairs, and a sub-array view keeps the coordinates of the array it
  is a view of.
\<close>

type_synonym idx = "int list"
type_synonym window = "(int \<times> int) list"
type_synonym mask = "idx set"

record field =
  shape :: "nat list"
  get :: "idx \<Rightarrow> real"

datatype error = UnsupportedDimension | RuntimeError | ValueError

text \<open>All indices of a window, in C (row-major) order.\<close>

fun box_indices :: "window \<Rightarrow> idx list" where
  "box_indices [] = [[]]"
| "box_indices ((lo, hi) # s) = concat (map (\<lambda>i. map ((#) i) (box_indices s)) [lo..hi - 1])"

fun in_box :: "window \<Rightarrow> idx \<Rightarrow> bool" where
  "in_box [] x = (x = [])"
| "in_box ((lo, hi) # s) x = (case x of [] \<Rightarrow> False | i # y \<Rightarrow> lo \<le> i \<and> i < hi \<and> in_box s y)"

definition box :: "window \<Rightarrow> mask" where
  "box s = set (box_indices s)"

definition full_window :: "nat list \<Rightarrow> window" where
  "full_window sh = map (\<lambda>n. (0, int n)) sh"

definition indices :: "nat list \<Rightarrow> idx list" where
  "indices sh = box_indices (full_window sh)"

definition shift :: "idx \<Rightarrow> idx \<Rightarrow> idx" where
  "shift x d = map2 (+) x d"

text \<open>
  Structuring elements and footprints are boolean arrays of odd side centred on the
  origin; each is the list of the offsets where it is \<open>True\<close>.
  \<^verbatim>\<open>skimage.morphology.disk(r)\<close> and \<^verbatim>\<open>ball(r)\<close> are the offsets of
  \<open>{-r..r}\<^sup>n\<close> with squared length at most \<open>r\<^sup>2\<close>; \<^verbatim>\<open>square(3)\<close> and
  \<^verbatim>\<open>cube(3)\<close> are all of \<open>{-1,0,1}\<^sup>n\<close>; the default structure of
  \<^verbatim>\<open>scipy.ndimage.label\<close> is the origin and its face neighbours.
\<close>

definition sqnorm :: "idx \<Rightarrow> int" where
  "sqnorm d = sum_list (map (\<lambda>a. a * a) d)"

definition nball :: "nat \<Rightarrow> nat \<Rightarrow> idx list" where
  "nball n r = filter (\<lambda>d. sqnorm d \<le> int r * int r) (box_indices (replicate n (- int r, int r + 1)))"

definition disk :: "nat \<Rightarrow> idx list" where
  "disk r = nball 2 r"

definition ball :: "nat \<Rightarrow> idx list" where
  "ball r = nball 3 r"

definition cube3 :: "nat \<Rightarrow> idx list" where
  "cube3 n = box_indices (replicate n (-1, 2))"

definition cross :: "nat \<Rightarrow> idx list" where
  "cross n = filter (\<lambda>d. sum_list (map abs d) \<le> 1) (cube3 n)"

section \<open>The library primitives the program calls\<close>

text \<open>
  \<^verbatim>\<open>ndarray.squeeze()\<close> drops the axes of length 1; an index of the squeezed array
  reads the original at the index with 0 put back on the dropped axes.
\<close>

fun unsqueeze :: "nat list \<Rightarrow> idx \<Rightarrow> idx" where
  "unsqueeze [] x = []"
| "unsqueeze (n # sh) x =
     (if n = 1 then 0 # unsqueeze sh x
      else (case x of [] \<Rightarrow> [] | i # y \<Rightarrow> i # unsqueeze sh y))"

definition squeeze :: "field \<Rightarrow> field" where
  "squeeze a = \<lparr>shape = filter (\<lambda>n. n \<noteq> 1) (shape a), get = (\<lambda>x. get a (unsqueeze (shape a) x))\<rparr>"

text \<open>
  \<^verbatim>\<open>scipy.ndimage.maximum_filter\<close> with its default boundary mode \<^verbatim>\<open>reflect\<close>
  (\<open>d c b a | a b c d | d c b a\<close>): a coordinate outside \<open>0..<n\<close> is read at its
  mirror image, with period \<open>2n\<close>.
\<close>

definition reflect :: "nat \<Rightarrow> int \<Rightarrow> int" where
  "reflect n i = (let m = i mod (2 * int n) in if m < int n then m else 2 * int n - 1 - m)"

definition neighborhood :: "nat list \<Rightarrow> idx list \<Rightarrow> idx \<Rightarrow> idx list" where
  "neighborhood sh fp x = map (\<lambda>d. map2 reflect sh (shift x d)) fp"

definition maximum_filter :: "nat list \<Rightarrow> (idx \<Rightarrow> real) \<Rightarrow> idx list \<Rightarrow> idx \<Rightarrow> real" where
  "maximum_filter sh f fp x = Max (f ` set (neighborhood sh fp x))"

text \<open>
  Evaluation only unfolds the filter at a concrete index (an index is \<open>[]\<close> or
  \<open>i # y\<close>), never at a bound variable.
\<close>

lemma maximum_filter_code [code]:
  "maximum_filter sh f fp [] = Max (f ` set (neighborhood sh fp []))"
  "maximum_filter sh f fp (i # y) = Max (f ` set (neighborhood sh fp (i # y)))"
  by (simp_all add: maximum_filter_def)

section \<open>find_peaks\<close>

text \<open>
  \<^verbatim>\<open>
  def find_peaks(dt, r=4, footprint=None):
      dt = dt.squeeze()
      im = dt > 0
      if footprint is None:
          if im.ndim == 2:
              footprint = disk
          elif im.ndim == 3:
              footprint = ball
          else:
              raise Exception("only 2-d and 3-d images are supported")
      mx = spim.maximum_filter(dt + 2*(~im), footprint=footprint(r))
      peaks = (dt == mx)*im
      return peaks
  \<close>
  The footprint argument is called with \<open>r\<close>, so it is a function from the radius to the
  offsets; one whose rank is not the array's makes the library raise.
\<close>

definition biased :: "field \<Rightarrow> idx \<Rightarrow> real" where
  "biased dt x = get dt x + 2 * (if 0 < get dt x then 0 else 1)"

definition find_peaks :: "field \<Rightarrow> nat \<Rightarrow> (nat \<Rightarrow> idx list) option \<Rightarrow> error + mask" where
  "find_peaks dt0 r footprint =
     (let dt = squeeze dt0;
          ndim = length (shape dt);
          chosen = (case footprint of
                      None \<Rightarrow> if ndim = 2 then Inr disk
                              else if ndim = 3 then Inr ball
                              else Inl UnsupportedDimension
                    | Some f \<Rightarrow> if list_all (\<lambda>d. length d = ndim) (f r) \<and> f r \<noteq> []
                               then Inr f else Inl RuntimeError)
      in case chosen of
           Inl e \<Rightarrow> Inl e
         | Inr fp \<Rightarrow>
             (let mx = maximum_filter (shape dt) (biased dt) (fp r)
              in Inr {x \<in> set (indices (shape dt)). get dt x = mx x \<and> 0 < get dt x}))"

text \<open>What the specification asks of a peak: a pore voxel that attains the
  maximum of the field over its neighbourhood.\<close>

definition spec_peak :: "field \<Rightarrow> idx list \<Rightarrow> idx \<Rightarrow> bool" where
  "spec_peak dt fp x =
     (0 < get dt x \<and> get dt x = Max (get dt ` set (neighborhood (shape dt) fp x)))"

text \<open>A two-dimensional array given by its rows.\<close>

definition of_rows :: "real list list \<Rightarrow> field" where
  "of_rows rows =
     \<lparr>shape = [length rows, length (hd rows)],
      get = (\<lambda>x. case x of [i, j] \<Rightarrow> rows ! nat i ! nat j | _ \<Rightarrow> 0)\<rparr>"

subsection \<open>Facts about windows, footprints and the reflected neighbourhood\<close>

lemma set_box_indices: "set (box_indices s) = {x. in_box s x}"
proof (induction s)
  case Nil
  show ?case by auto
next
  case (Cons p s)
  obtain lo hi where p: "p = (lo, hi)" by (cases p)
  have "x \<in> set (box_indices ((lo, hi) # s)) \<longleftrightarrow> in_box ((lo, hi) # s) x" for x
  proof (cases x)
    case Nil
    then show ?thesis by auto
  next
    case (Cons i y)
    have "i \<le> hi - 1 \<longleftrightarrow> i < hi" by arith
    with Cons Cons.IH show ?thesis by auto
  qed
  then show ?case unfolding p by blast
qed

lemma in_box_length: "in_box s x \<Longrightarrow> length x = length s"
  by (induction s x rule: in_box.induct) (auto split: list.splits)

lemma in_box_replicate_zero: "lo \<le> 0 \<Longrightarrow> 0 < hi \<Longrightarrow> in_box (replicate n (lo, hi)) (replicate n 0)"
  by (induction n) auto

lemma sqnorm_replicate_zero: "sqnorm (replicate n 0) = 0"
  by (induction n) (auto simp: sqnorm_def)

lemma zero_in_nball: "replicate n 0 \<in> set (nball n r)"
  by (simp add: nball_def set_box_indices in_box_replicate_zero sqnorm_replicate_zero)

lemma reflect_inside: "0 \<le> i \<Longrightarrow> i < int n \<Longrightarrow> reflect n i = i"
  by (simp add: reflect_def)

lemma reflect_shift_zero:
  "in_box (full_window sh) x \<Longrightarrow> map2 reflect sh (shift x (replicate (length sh) 0)) = x"
proof (induction sh arbitrary: x)
  case Nil
  then show ?case by (simp add: full_window_def shift_def)
next
  case (Cons n sh)
  then obtain i y where x: "x = i # y" and i: "0 \<le> i" "i < int n" and y: "in_box (full_window sh) y"
    by (auto simp: full_window_def split: list.splits)
  from Cons.IH[OF y] show ?case
    by (simp add: x shift_def reflect_inside i)
qed

lemma self_in_neighborhood:
  assumes "x \<in> set (indices sh)"
  shows "x \<in> set (neighborhood sh (nball (length sh) r) x)"
proof -
  from assms have "in_box (full_window sh) x" by (simp add: indices_def set_box_indices)
  then have "map2 reflect sh (shift x (replicate (length sh) 0)) = x" by (rule reflect_shift_zero)
  then show ?thesis
    unfolding neighborhood_def using zero_in_nball[of "length sh" r] by force
qed

lemma biased_ge: "get dt y \<le> biased dt y"
  by (simp add: biased_def)

lemma peak_test_iff:
  assumes x: "x \<in> set nb"
  shows "(get dt x = Max (biased dt ` set nb) \<and> 0 < get dt x) \<longleftrightarrow>
         (0 < get dt x \<and> get dt x = Max (get dt ` set nb) \<and>
          (\<forall>y\<in>set nb. get dt y \<le> 0 \<longrightarrow> get dt y + 2 \<le> get dt x))"
    (is "?L \<longleftrightarrow> ?R")
proof
  assume L: ?L
  have ne: "set nb \<noteq> {}" using x by auto
  from L have up: "\<forall>y\<in>set nb. biased dt y \<le> get dt x"
    by (metis Max_ge finite_imageI finite_set imageI)
  have le: "\<forall>y\<in>set nb. get dt y \<le> get dt x"
    using up biased_ge[of dt] by (meson order_trans)
  have "Max (get dt ` set nb) = get dt x"
    by (rule Max_eqI) (use le x in auto)
  moreover have "\<forall>y\<in>set nb. get dt y \<le> 0 \<longrightarrow> get dt y + 2 \<le> get dt x"
    using up by (auto simp: biased_def split: if_splits)
  ultimately show ?R using L by simp
next
  assume R: ?R
  then have le: "\<forall>y\<in>set nb. get dt y \<le> get dt x"
    by (metis Max_ge finite_imageI finite_set imageI)
  have "\<forall>y\<in>set nb. biased dt y \<le> get dt x"
  proof
    fix y assume y: "y \<in> set nb"
    show "biased dt y \<le> get dt x"
      using R le y by (cases "0 < get dt y") (auto simp: biased_def)
  qed
  moreover have "biased dt x = get dt x" using R by (simp add: biased_def)
  ultimately have "Max (biased dt ` set nb) = get dt x"
    using x by (intro Max_eqI) (auto simp: image_iff intro: bexI[of _ x])
  then show ?L using R by simp
qed

subsection \<open>What find_peaks returns\<close>

text \<open>
  Claim C1 (as amended). For a field that is 2- or 3-dimensional after squeezing and
  the default footprint, \<open>find_peaks\<close> returns exactly the voxels \<open>x\<close> with
  \<open>dt[x] > 0\<close>, \<open>dt[x]\<close> equal to the maximum of \<open>dt\<close> over the disk/ball
  neighbourhood of \<open>x\<close>, and \<open>dt[y] + 2 \<le> dt[x]\<close> for every non-pore voxel \<open>y\<close>
  of that neighbourhood: the bias of 2 on the solid does take part in the test.
\<close>

theorem find_peaks_characterisation:
  assumes "length (shape (squeeze dt0)) = 2 \<or> length (shape (squeeze dt0)) = 3"
  shows "find_peaks dt0 r None =
           Inr {x \<in> set (indices (shape (squeeze dt0))).
                  spec_peak (squeeze dt0) (nball (length (shape (squeeze dt0))) r) x \<and>
                  (\<forall>y\<in>set (neighborhood (shape (squeeze dt0)) (nball (length (shape (squeeze dt0))) r) x).
                      get (squeeze dt0) y \<le> 0 \<longrightarrow> get (squeeze dt0) y + 2 \<le> get (squeeze dt0) x)}"
proof -
  define dt where "dt = squeeze dt0"
  define n where "n = length (shape dt)"
  have fp: "(if n = 2 then Inr disk else if n = 3 then Inr ball else Inl UnsupportedDimension)
              = (Inr (nball n) :: error + (nat \<Rightarrow> idx list))"
    using assms unfolding dt_def[symmetric] n_def[symmetric]
    by (auto simp: disk_def ball_def fun_eq_iff)
  have "{x \<in> set (indices (shape dt)).
           get dt x = maximum_filter (shape dt) (biased dt) (nball n r) x \<and> 0 < get dt x}
        = {x \<in> set (indices (shape dt)). spec_peak dt (nball n r) x \<and>
             (\<forall>y\<in>set (neighborhood (shape dt) (nball n r) x).
                 get dt y \<le> 0 \<longrightarrow> get dt y + 2 \<le> get dt x)}"
  proof (rule Collect_cong, rule conj_cong[OF refl])
    fix x assume "x \<in> set (indices (shape dt))"
    then have "x \<in> set (neighborhood (shape dt) (nball n r) x)"
      unfolding n_def by (rule self_in_neighborhood)
    from peak_test_iff[OF this, of dt] show
      "(get dt x = maximum_filter (shape dt) (biased dt) (nball n r) x \<and> 0 < get dt x) =
       (spec_peak dt (nball n r) x \<and>
        (\<forall>y\<in>set (neighborhood (shape dt) (nball n r) x).
            get dt y \<le> 0 \<longrightarrow> get dt y + 2 \<le> get dt x))"
      by (simp add: maximum_filter_def spec_peak_def)
  qed
  then show ?thesis
    unfolding find_peaks_def Let_def dt_def[symmetric] n_def[symmetric]
    by (simp add: fp)
qed


text \<open>The amended statement at the field \<open>[[1, 1], [1, 2]]\<close> with \<open>r = 4\<close>.\<close>

theorem find_peaks_characterisation_witness:
  "(length (shape (squeeze (of_rows [[1, 1], [1, 2]]))) = 2 \<or>
    length (shape (squeeze (of_rows [[1, 1], [1, 2]]))) = 3) \<and>
   find_peaks (of_rows [[1, 1], [1, 2]]) 4 None =
     Inr {x \<in> set (indices (shape (squeeze (of_rows [[1, 1], [1, 2]])))).
            spec_peak (squeeze (of_rows [[1, 1], [1, 2]]))
              (nball (length (shape (squeeze (of_rows [[1, 1], [1, 2]])))) 4) x \<and>
            (\<forall>y\<in>set (neighborhood (shape (squeeze (of_rows [[1, 1], [1, 2]])))
                        (nball (length (shape (squeeze (of_rows [[1, 1], [1, 2]])))) 4) x).
                get (squeeze (of_rows [[1, 1], [1, 2]])) y \<le> 0 \<longrightarrow>
                get (squeeze (of_rows [[1, 1], [1, 2]])) y + 2
                  \<le> get (squeeze (of_rows [[1, 1], [1, 2]])) x)} \<and>
   find_peaks (of_rows [[1, 1], [1, 2]]) 4 None = Inr {[1, 1]}"
proof -
  have h: "length (shape (squeeze (of_rows [[1, 1], [1, 2]]))) = 2 \<or>
           length (shape (squeeze (of_rows [[1, 1], [1, 2]]))) = 3"
    by (simp add: squeeze_def of_rows_def)
  have e: "find_peaks (of_rows [[1, 1], [1, 2]]) 4 None = Inr {[1, 1]}"
    by code_simp
  show ?thesis
    using h find_peaks_characterisation[OF h, of 4] e by blast
qed

text \<open>
  Claim C1 as stated fails: in the field \<open>[[0, 1], [1, 1]]\<close> the pore voxel
  \<open>[0, 1]\<close> has \<open>dt > 0\<close> and attains the maximum of \<open>dt\<close> over its disk of
  radius 4, yet \<open>find_peaks\<close> returns the empty mask: the solid voxel \<open>[0, 0]\<close>
  enters the maximum filter as \<open>0 + 2 = 2 > 1\<close>.
\<close>

theorem find_peaks_bias_counterexample:
  "spec_peak (squeeze (of_rows [[0, 1], [1, 1]])) (disk 4) [0, 1] \<and>
   [0, 1] \<in> set (indices (shape (squeeze (of_rows [[0, 1], [1, 1]])))) \<and>
   find_peaks (of_rows [[0, 1], [1, 1]]) 4 None = Inr {}"
  by code_simp

section \<open>Dilation, labelling and bounding boxes\<close>

text \<open>
  \<^verbatim>\<open>scipy.ndimage.binary_dilation(input, structure)\<close> on a window: a voxel of the
  window is set when some voxel of the input lies at a structure offset from it
  (outside the window the input counts as \<open>False\<close>).
\<close>

definition binary_dilation :: "idx list \<Rightarrow> window \<Rightarrow> mask \<Rightarrow> mask" where
  "binary_dilation st s a = {x \<in> box s. \<exists>d\<in>set st. shift x d \<in> a}"

text \<open>
  \<^verbatim>\<open>scipy.ndimage.label(input, structure)\<close> numbers the connected components of the
  \<open>True\<close> voxels 1, 2, ... in the order in which a row-major scan first meets them.
  The labelled array is modelled as the list of its components: the voxels labelled
  \<open>i + 1\<close> are \<open>blobs ! i\<close>. A component is grown from its first voxel by adding the
  mask voxels adjacent to it until nothing is added.
\<close>

fun flood :: "nat \<Rightarrow> idx list \<Rightarrow> mask \<Rightarrow> mask \<Rightarrow> mask" where
  "flood 0 st m c = c"
| "flood (Suc n) st m c =
     (let c' = c \<union> {y \<in> m. \<exists>d\<in>set st. shift y d \<in> c}
      in if c' = c then c else flood n st m c')"

fun label_scan :: "idx list \<Rightarrow> idx list \<Rightarrow> mask \<Rightarrow> mask list" where
  "label_scan st [] m = []"
| "label_scan st (x # xs) m =
     (if x \<in> m then (let c = flood (card m) st m {x} in c # label_scan st xs (m - c))
      else label_scan st xs m)"

definition label :: "idx list \<Rightarrow> nat list \<Rightarrow> mask \<Rightarrow> mask list" where
  "label st sh peaks = label_scan st (indices sh) (peaks \<inter> set (indices sh))"

text \<open>The integer array that \<^verbatim>\<open>label\<close> returns, read back from the components.\<close>

definition label_array :: "mask list \<Rightarrow> idx \<Rightarrow> nat" where
  "label_array blobs x =
     (case find (\<lambda>i. x \<in> blobs ! i) [0..<length blobs] of None \<Rightarrow> 0 | Some i \<Rightarrow> i + 1)"

text \<open>\<^verbatim>\<open>scipy.ndimage.find_objects\<close>: the bounding box of every label, as slices.\<close>

definition bounding_box :: "nat \<Rightarrow> mask \<Rightarrow> window" where
  "bounding_box ndim b =
     map (\<lambda>k. (Min ((\<lambda>x. x ! k) ` b), Max ((\<lambda>x. x ! k) ` b) + 1)) [0..<ndim]"

definition find_objects :: "nat \<Rightarrow> mask list \<Rightarrow> window list" where
  "find_objects ndim blobs = map (bounding_box ndim) blobs"

text \<open>
  Modelled from the spec: \<^verbatim>\<open>extend_slice\<close> is called by \<^verbatim>\<open>trim_saddle_points\<close>
  but is not defined in the source file. The specification describes its result as
  ``the blob's bounding box padded by a fixed margin (default 10 voxels), clamped to
  array bounds''.
\<close>

definition extend_slice :: "window \<Rightarrow> nat list \<Rightarrow> int \<Rightarrow> window" where
  "extend_slice s sh pad = map2 (\<lambda>(lo, hi) n. (max (lo - pad) 0, min (hi + pad) (int n))) s sh"

section \<open>trim_saddle_points\<close>

text \<open>
  \<^verbatim>\<open>
  def trim_saddle_points(peaks, dt, max_iters=10):
      if dt.ndim == 2:
          from skimage.morphology import square as cube
      else:
          from skimage.morphology import cube
      labels, N = spim.label(peaks)
      slices = spim.find_objects(labels)
      for i in range(N):
          s = extend_slice(s=slices[i], shape=peaks.shape, pad=10)
          peaks_i = labels[s] == i+1
          dt_i = dt[s]
          im_i = dt_i > 0
          iters = 0
          peaks_dil = sp.copy(peaks_i)
          while iters < max_iters:
              iters += 1
              peaks_dil = spim.binary_dilation(input=peaks_dil,
                                               structure=cube(3))
              peaks_max = peaks_dil*sp.amax(dt_i*peaks_dil)
              peaks_extended = (peaks_max == dt_i)*im_i
              if sp.all(peaks_extended == peaks_i):
                  break  # Found a true peak
              elif sp.sum(peaks_extended*peaks_i) == 0:
                  peaks_i = False
                  break  # Found a saddle point
          peaks[s] = peaks_i
      return peaks
  \<close>
\<close>

text \<open>\<^verbatim>\<open>peaks_extended\<close>, from the dilated mask.\<close>

definition trial_mask :: "window \<Rightarrow> (idx \<Rightarrow> real) \<Rightarrow> mask \<Rightarrow> mask" where
  "trial_mask s dt_i peaks_dil =
     (let amax = Max ((\<lambda>x. if x \<in> peaks_dil then dt_i x else 0) ` box s)
      in {x \<in> box s. (if x \<in> peaks_dil then amax else 0) = dt_i x \<and> 0 < dt_i x})"

text \<open>The \<^verbatim>\<open>while\<close> loop; its value is \<^verbatim>\<open>peaks_i\<close> when the loop is left.\<close>

function saddle_loop ::
  "nat \<Rightarrow> nat \<Rightarrow> idx list \<Rightarrow> window \<Rightarrow> (idx \<Rightarrow> real) \<Rightarrow> mask \<Rightarrow> mask \<Rightarrow> mask" where
  "saddle_loop max_iters iters st s dt_i peaks_i peaks_dil =
     (if iters < max_iters then
        (let peaks_dil' = binary_dilation st s peaks_dil;
             peaks_extended = trial_mask s dt_i peaks_dil'
         in if peaks_extended = peaks_i then peaks_i
            else if peaks_extended \<inter> peaks_i = {} then {}
            else saddle_loop max_iters (iters + 1) st s dt_i peaks_i peaks_dil')
      else peaks_i)"
  by pat_completeness auto
termination
  by (relation "measure (\<lambda>(max_iters, iters, _). max_iters - iters)") auto

text \<open>The defining equation is unconditionally recursive, so it is unfolded by hand.\<close>

declare saddle_loop.simps [simp del]

text \<open>The window of blob \<open>i\<close>, and the body of the \<^verbatim>\<open>for\<close> loop: the new
  \<^verbatim>\<open>peaks\<close> after \<^verbatim>\<open>peaks[s] = peaks_i\<close>.\<close>

definition blob_window :: "field \<Rightarrow> mask list \<Rightarrow> nat \<Rightarrow> window" where
  "blob_window dt blobs i =
     extend_slice (find_objects (length (shape dt)) blobs ! i) (shape dt) 10"

definition saddle_blob :: "field \<Rightarrow> nat \<Rightarrow> mask list \<Rightarrow> mask \<Rightarrow> nat \<Rightarrow> mask" where
  "saddle_blob dt max_iters blobs peaks i =
     (let s = blob_window dt blobs i;
          cube = (if length (shape dt) = 2 then cube3 2 else cube3 3);
          peaks_i = {x \<in> box s. x \<in> blobs ! i};
          peaks_i' = saddle_loop max_iters 0 cube s (get dt) peaks_i peaks_i
      in (peaks - box s) \<union> peaks_i')"

definition trim_saddle_points :: "mask \<Rightarrow> field \<Rightarrow> nat \<Rightarrow> error + mask" where
  "trim_saddle_points peaks dt max_iters =
     (let ndim = length (shape dt);
          blobs = label (cross ndim) (shape dt) peaks;
          N = length blobs
      in if 0 < N \<and> 0 < max_iters \<and> ndim \<noteq> 2 \<and> ndim \<noteq> 3 then Inl RuntimeError
         else Inr (foldl (saddle_blob dt max_iters blobs) peaks [0..<N]))"

section \<open>trim_nearby_peaks\<close>

text \<open>
  \<^verbatim>\<open>
  def trim_nearby_peaks(peaks, dt):
      if dt.ndim == 2:
          from skimage.morphology import square as cube
      else:
          from skimage.morphology import cube
      peaks, N = spim.label(peaks, structure=cube(3))
      crds = spim.measurements.center_of_mass(peaks, labels=peaks,
                                              index=sp.arange(1, N+1))
      crds = sp.vstack(crds).astype(int)  # Convert to numpy array of ints
      # Get distance between each peak as a distance map
      tree = sptl.cKDTree(data=crds)
      temp = tree.query(x=crds, k=2)
      nearest_neighbor = temp[1][:, 1]
      dist_to_neighbor = temp[0][:, 1]
      del temp, tree  # Free-up memory
      dist_to_solid = dt[list(crds.T)]  # Get distance to solid for each peak
      hits = sp.where(dist_to_neighbor < dist_to_solid)[0]
      # Drop peak that is closer to the solid than it's neighbor
      drop_peaks = []
      for peak in hits:
          if dist_to_solid[peak] < dist_to_solid[nearest_neighbor[peak]]:
              drop_peaks.append(peak)
          else:
              drop_peaks.append(nearest_neighbor[peak])
      drop_peaks = sp.unique(drop_peaks)
      # Remove peaks from image
      slices = spim.find_objects(input=peaks)
      for s in drop_peaks:
          peaks[slices[s]] = 0
      return (peaks > 0)
  \<close>
\<close>

text \<open>
  \<^verbatim>\<open>center_of_mass\<close> of one label followed by \<^verbatim>\<open>astype(int)\<close>: the mean of the
  blob's coordinates on every axis, truncated (the coordinates are not negative).
\<close>

definition centroid :: "nat \<Rightarrow> mask \<Rightarrow> idx" where
  "centroid ndim b = map (\<lambda>k. (\<Sum>x\<in>b. x ! k) div int (card b)) [0..<ndim]"

definition sqdist :: "idx \<Rightarrow> idx \<Rightarrow> int" where
  "sqdist p q = sum_list (map2 (\<lambda>a b. (a - b) * (a - b)) p q)"

definition euclid :: "idx \<Rightarrow> idx \<Rightarrow> real" where
  "euclid p q = sqrt (real_of_int (sqdist p q))"

text \<open>
  \<^verbatim>\<open>cKDTree.query(x=crds, k=2)\<close> returns for every point the two nearest points of
  the set, the nearer first. The query points are the points of the set, so each is at
  distance 0 from itself, and the second column \<^verbatim>\<open>temp[1][:, 1]\<close> holds for point
  \<open>i\<close> an index at the least distance among the points other than \<open>i\<close>; this index
  is \<open>i\<close> itself when another point coincides with \<open>i\<close> and is reported first. Which
  of several equally near points is reported is the library's choice. The second column
  is therefore a parameter \<open>tree_query\<close> of the model, and \<open>kdtree_query\<close> states what
  every answer of the library satisfies. With a single point the library reports a
  missing neighbour (index \<open>n\<close>, distance \<open>inf\<close>), modelled as \<open>None\<close>.
\<close>

definition second_nearest :: "idx list \<Rightarrow> nat \<Rightarrow> nat option \<Rightarrow> bool" where
  "second_nearest crds i r =
     (case r of
        None \<Rightarrow> length crds \<le> 1
      | Some j \<Rightarrow>
          j < length crds \<and>
          (\<forall>k<length crds. k \<noteq> i \<longrightarrow> sqdist (crds ! i) (crds ! j) \<le> sqdist (crds ! i) (crds ! k)) \<and>
          (\<exists>k<length crds. k \<noteq> i \<and> sqdist (crds ! i) (crds ! k) = sqdist (crds ! i) (crds ! j)))"

definition kdtree_query :: "(idx list \<Rightarrow> nat option list) \<Rightarrow> bool" where
  "kdtree_query tree_query =
     (\<forall>crds. length (tree_query crds) = length crds \<and>
             (\<forall>i<length crds. second_nearest crds i (tree_query crds ! i)))"

text \<open>
  One admissible answer, used to run the model: for every point the nearest of the
  other points, the first in index order among equally near ones.
\<close>

fun closest :: "idx list \<Rightarrow> idx \<Rightarrow> nat \<Rightarrow> nat list \<Rightarrow> nat" where
  "closest crds p best [] = best"
| "closest crds p best (j # js) =
     closest crds p (if sqdist p (crds ! j) < sqdist p (crds ! best) then j else best) js"

definition first_other :: "idx list \<Rightarrow> nat \<Rightarrow> nat option" where
  "first_other crds i =
     (case filter (\<lambda>j. j \<noteq> i) [0..<length crds] of
        [] \<Rightarrow> None
      | j # js \<Rightarrow> Some (closest crds (crds ! i) j js))"

definition nearest_other :: "idx list \<Rightarrow> nat option list" where
  "nearest_other crds = map (first_other crds) [0..<length crds]"

text \<open>\<^verbatim>\<open>dist_to_neighbor[i] < dist_to_solid[i]\<close>: the test that puts \<open>i\<close> in
  \<^verbatim>\<open>hits\<close>.\<close>

definition contested :: "idx list \<Rightarrow> nat option list \<Rightarrow> real list \<Rightarrow> nat \<Rightarrow> bool" where
  "contested crds nearest_neighbor dist_to_solid i =
     (case nearest_neighbor ! i of
        None \<Rightarrow> False
      | Some j \<Rightarrow> euclid (crds ! i) (crds ! j) < dist_to_solid ! i)"

text \<open>The body of \<^verbatim>\<open>for peak in hits\<close>: which of \<open>peak\<close> and its neighbour is
  appended to \<^verbatim>\<open>drop_peaks\<close>.\<close>

definition drop_choice :: "real list \<Rightarrow> nat \<Rightarrow> nat \<Rightarrow> nat" where
  "drop_choice dist_to_solid peak nbr =
     (if dist_to_solid ! peak < dist_to_solid ! nbr then peak else nbr)"

definition marked :: "nat option list \<Rightarrow> real list \<Rightarrow> nat \<Rightarrow> nat" where
  "marked nearest_neighbor dist_to_solid peak =
     (case nearest_neighbor ! peak of
        None \<Rightarrow> peak
      | Some j \<Rightarrow> drop_choice dist_to_solid peak j)"

text \<open>\<^verbatim>\<open>peaks[slices[s]] = 0\<close>.\<close>

definition clear_slice :: "window list \<Rightarrow> mask \<Rightarrow> nat \<Rightarrow> mask" where
  "clear_slice slices peaks s = peaks - box (slices ! s)"

text \<open>\<^verbatim>\<open>drop_peaks\<close> after \<^verbatim>\<open>sp.unique\<close>, from the centroids, the second column
  of the query and the field values at the centroids.\<close>

definition drop_list :: "idx list \<Rightarrow> nat option list \<Rightarrow> real list \<Rightarrow> nat list" where
  "drop_list crds nearest_neighbor dist_to_solid =
     (let hits = filter (contested crds nearest_neighbor dist_to_solid) [0..<length crds]
      in sort (remdups (map (marked nearest_neighbor dist_to_solid) hits)))"

definition trim_nearby_peaks ::
  "(idx list \<Rightarrow> nat option list) \<Rightarrow> mask \<Rightarrow> field \<Rightarrow> error + mask" where
  "trim_nearby_peaks tree_query peaks0 dt =
     (let ndim = length (shape dt)
      in if ndim \<noteq> 2 \<and> ndim \<noteq> 3 then Inl RuntimeError
         else
           (let peaks = label (cube3 ndim) (shape dt) peaks0;
                N = length peaks
            in if N = 0 then Inl ValueError
               else
                 (let crds = map (centroid ndim) peaks;
                      nearest_neighbor = tree_query crds;
                      dist_to_solid = map (get dt) crds;
                      drop_peaks = drop_list crds nearest_neighbor dist_to_solid;
                      slices = find_objects ndim peaks
                  in Inr (foldl (clear_slice slices) (\<Union> (set peaks)) drop_peaks))))"

text \<open>The comparison of a distance with a field value is evaluated without the
  square root.\<close>

lemma euclid_less_code [code_unfold]:
  "euclid p q < v \<longleftrightarrow> 0 < v \<and> real_of_int (sqdist p q) < v * v"
proof -
  have nn: "0 \<le> sqdist p q"
    unfolding sqdist_def by (rule sum_list_nonneg) (auto simp: in_set_zip)
  show ?thesis
  proof (cases "0 < v")
    case True
    then have "sqrt (v\<^sup>2) = v" by simp
    then have "sqrt (real_of_int (sqdist p q)) < v \<longleftrightarrow>
                 sqrt (real_of_int (sqdist p q)) < sqrt (v\<^sup>2)" by simp
    also have "\<dots> \<longleftrightarrow> real_of_int (sqdist p q) < v\<^sup>2" by (rule real_sqrt_less_iff)
    finally show ?thesis using True by (simp add: euclid_def power2_eq_square)
  next
    case False
    have "0 \<le> sqrt (real_of_int (sqdist p q))" using nn by simp
    with False have "\<not> sqrt (real_of_int (sqdist p q)) < v" by linarith
    with False show ?thesis by (simp add: euclid_def)
  qed
qed

section \<open>snow\<close>

text \<open>
  \<^verbatim>\<open>
  def snow(im, r_max=4, sigma=0.4):
      im = im.squeeze()
      if im.dtype == 'bool':
          dt = spim.distance_transform_edt(input=im)
      else:
          dt = im
          im = dt > 0
      if sigma > 0:
          dt = spim.gaussian_filter(input=dt, sigma=sigma)
      peaks = find_peaks(dt=dt)
      peaks = trim_saddle_points(peaks=peaks, dt=dt)
      peaks = trim_nearby_peaks(peaks=peaks, dt=dt)
      peaks, N = spim.label(peaks)
      return peaks
  \<close>
  The distance transform and the Gaussian filter are library calls that keep the shape;
  together they are the parameter \<open>prepare\<close>, which gives the values of \<open>dt\<close> from the
  squeezed input. For an input that is not boolean and \<open>sigma = 0\<close> it is \<open>get\<close>.
  The answer of the k-d tree is the parameter \<open>tree_query\<close> of \<^verbatim>\<open>trim_nearby_peaks\<close>.
  The result is the labelled array, as the list of its components.
\<close>

definition snow_field :: "(field \<Rightarrow> idx \<Rightarrow> real) \<Rightarrow> field \<Rightarrow> field" where
  "snow_field prepare im0 = (let im = squeeze im0 in \<lparr>shape = shape im, get = prepare im\<rparr>)"

definition snow ::
  "(field \<Rightarrow> idx \<Rightarrow> real) \<Rightarrow> (idx list \<Rightarrow> nat option list) \<Rightarrow> field \<Rightarrow> error + mask list" where
  "snow prepare tree_query im0 =
     (let dt = snow_field prepare im0
      in case find_peaks dt 4 None of
           Inl e \<Rightarrow> Inl e
         | Inr peaks1 \<Rightarrow>
             (case trim_saddle_points peaks1 dt 10 of
                Inl e \<Rightarrow> Inl e
              | Inr peaks2 \<Rightarrow>
                  (case trim_nearby_peaks tree_query peaks2 dt of
                     Inl e \<Rightarrow> Inl e
                   | Inr peaks3 \<Rightarrow> Inr (label (cross (length (shape dt))) (shape dt) peaks3))))"

section \<open>Facts about labelling, bounding boxes and windows\<close>

lemma flood_subset: "c \<subseteq> m \<Longrightarrow> flood n st m c \<subseteq> m"
  by (induction n arbitrary: c) (auto simp: Let_def)

lemma flood_contains: "c \<subseteq> flood n st m c"
proof (induction n arbitrary: c)
  case 0
  show ?case by simp
next
  case (Suc n)
  have "c \<subseteq> c \<union> {y \<in> m. \<exists>d\<in>set st. shift y d \<in> c}" by blast
  also have "\<dots> \<subseteq> flood n st m (c \<union> {y \<in> m. \<exists>d\<in>set st. shift y d \<in> c})" by (rule Suc.IH)
  finally show ?case by (simp add: Let_def)
qed

text \<open>The fuel \<open>card m\<close> is enough: what \<open>flood\<close> returns is closed under
  adjacency within the mask, so it is the whole connected component of the seed.\<close>

lemma flood_closed:
  assumes "finite m" "c \<subseteq> m" "card m - card c < n"
  shows "{y \<in> m. \<exists>d\<in>set st. shift y d \<in> flood n st m c} \<subseteq> flood n st m c"
  using assms
proof (induction n arbitrary: c)
  case 0
  then show ?case by simp
next
  case (Suc n)
  define c' where "c' = c \<union> {y \<in> m. \<exists>d\<in>set st. shift y d \<in> c}"
  show ?case
  proof (cases "c' = c")
    case True
    then have "flood (Suc n) st m c = c" by (simp add: c'_def Let_def)
    moreover have "{y \<in> m. \<exists>d\<in>set st. shift y d \<in> c} \<subseteq> c" using True c'_def by blast
    ultimately show ?thesis by simp
  next
    case False
    have sub: "c' \<subseteq> m" using Suc.prems(2) by (auto simp: c'_def)
    have "c \<subset> c'" using False by (auto simp: c'_def)
    then have "card c < card c'"
      using Suc.prems(1) sub by (meson finite_subset psubset_card_mono)
    moreover have "card c' \<le> card m" using Suc.prems(1) sub by (rule card_mono)
    ultimately have "card m - card c' < n" using Suc.prems(3) by linarith
    from Suc.IH[OF Suc.prems(1) sub this] show ?thesis
      using False by (simp add: c'_def Let_def)
  qed
qed

lemma component_closed:
  assumes "finite m" "x \<in> m"
  shows "{y \<in> m. \<exists>d\<in>set st. shift y d \<in> flood (card m) st m {x}} \<subseteq> flood (card m) st m {x}"
proof -
  have "0 < card m" using assms by (auto simp: card_gt_0_iff)
  then have "card m - card {x} < card m" by simp
  with assms show ?thesis by (intro flood_closed) auto
qed

lemma label_scan_subset: "\<Union> (set (label_scan st xs m)) \<subseteq> m"
proof (induction xs arbitrary: m)
  case Nil
  show ?case by simp
next
  case (Cons x xs)
  show ?case
  proof (cases "x \<in> m")
    case True
    have "flood (card m) st m {x} \<subseteq> m" using True by (intro flood_subset) simp
    moreover have "\<Union> (set (label_scan st xs (m - flood (card m) st m {x}))) \<subseteq> m - flood (card m) st m {x}"
      by (rule Cons.IH)
    ultimately show ?thesis using True by (auto simp: Let_def)
  next
    case False
    then show ?thesis using Cons.IH[of m] by simp
  qed
qed

lemma label_scan_covers: "m \<inter> set xs \<subseteq> \<Union> (set (label_scan st xs m))"
proof (induction xs arbitrary: m)
  case Nil
  show ?case by simp
next
  case (Cons x xs)
  show ?case
  proof (cases "x \<in> m")
    case True
    have x: "x \<in> flood (card m) st m {x}" using flood_contains[of "{x}"] by blast
    have "(m - flood (card m) st m {x}) \<inter> set xs \<subseteq> \<Union> (set (label_scan st xs (m - flood (card m) st m {x})))"
      by (rule Cons.IH)
    then show ?thesis using True x by (auto simp: Let_def)
  next
    case False
    then show ?thesis using Cons.IH[of m] by auto
  qed
qed

lemma label_union: "\<Union> (set (label st sh peaks)) = peaks \<inter> set (indices sh)"
  unfolding label_def
  using label_scan_subset[of st "indices sh" "peaks \<inter> set (indices sh)"]
        label_scan_covers[of "peaks \<inter> set (indices sh)" "indices sh" st]
  by blast

lemma label_blob_subset:
  "i < length (label st sh peaks) \<Longrightarrow> label st sh peaks ! i \<subseteq> peaks \<inter> set (indices sh)"
  using label_union[of st sh peaks] by (metis Union_upper nth_mem)

lemma label_empty: "label st sh {} = []"
proof -
  have "label_scan st xs {} = []" for xs by (induction xs) auto
  then show ?thesis by (simp add: label_def)
qed

lemma label_nonempty: "peaks \<inter> set (indices sh) \<noteq> {} \<Longrightarrow> label st sh peaks \<noteq> []"
  using label_union[of st sh peaks] by auto

lemma in_box_iff:
  "in_box s x \<longleftrightarrow> length x = length s \<and> (\<forall>k<length s. fst (s ! k) \<le> x ! k \<and> x ! k < snd (s ! k))"
proof (induction s arbitrary: x)
  case Nil
  show ?case by auto
next
  case (Cons p s)
  obtain lo hi where p: "p = (lo, hi)" by (cases p)
  show ?case
  proof (cases x)
    case Nil
    then show ?thesis by (simp add: p)
  next
    case (Cons i y)
    show ?thesis
      unfolding p Cons using Cons.IH[of y]
      by (auto simp: nth_Cons split: nat.splits) 
  qed
qed

lemma indices_length: "x \<in> set (indices sh) \<Longrightarrow> length x = length sh"
  by (simp add: indices_def set_box_indices in_box_iff full_window_def)

lemma in_bounding_box:
  assumes "finite b" "x \<in> b" "length x = ndim"
  shows "x \<in> box (bounding_box ndim b)"
proof -
  have "Min ((\<lambda>x. x ! k) ` b) \<le> x ! k \<and> x ! k < Max ((\<lambda>x. x ! k) ` b) + 1" for k
  proof -
    have "Min ((\<lambda>x. x ! k) ` b) \<le> x ! k" using assms by (intro Min_le) auto
    moreover have "x ! k \<le> Max ((\<lambda>x. x ! k) ` b)" using assms by (intro Max_ge) auto
    ultimately show ?thesis by simp
  qed
  then show ?thesis
    using assms(3) by (simp add: box_def set_box_indices in_box_iff bounding_box_def)
qed

lemma in_extend_slice:
  assumes "x \<in> box s" "x \<in> set (indices sh)" "0 \<le> pad"
  shows "x \<in> box (extend_slice s sh pad)"
proof -
  from assms(1) have s: "length x = length s" "\<forall>k<length s. fst (s ! k) \<le> x ! k \<and> x ! k < snd (s ! k)"
    by (simp_all add: box_def set_box_indices in_box_iff)
  from assms(2) have sh: "length x = length sh" "\<forall>k<length sh. 0 \<le> x ! k \<and> x ! k < int (sh ! k)"
    by (simp_all add: indices_def set_box_indices in_box_iff full_window_def)
  show ?thesis
    using s sh assms(3)
    by (auto simp: box_def set_box_indices in_box_iff extend_slice_def split: prod.splits)
qed

lemma blob_in_window:
  assumes "i < length blobs" "blobs ! i \<subseteq> set (indices (shape dt))"
  shows "blobs ! i \<subseteq> box (blob_window dt blobs i)"
proof
  fix x assume x: "x \<in> blobs ! i"
  have fin: "finite (blobs ! i)" using assms(2) by (rule finite_subset) simp
  have len: "length x = length (shape dt)" using x assms(2) by (auto intro: indices_length)
  have "x \<in> box (bounding_box (length (shape dt)) (blobs ! i))"
    using fin x len by (rule in_bounding_box)
  then show "x \<in> box (blob_window dt blobs i)"
    unfolding blob_window_def find_objects_def using assms(1) x assms(2)
    by (auto intro!: in_extend_slice)
qed

section \<open>The outcome of the saddle loop for one blob\<close>

text \<open>
  The trial mask (\<^verbatim>\<open>peaks_extended\<close>) of iteration \<open>k\<close>: the dilated mask has been
  dilated \<open>k\<close> times.
\<close>

fun dilate_n :: "idx list \<Rightarrow> window \<Rightarrow> nat \<Rightarrow> mask \<Rightarrow> mask" where
  "dilate_n st s 0 a = a"
| "dilate_n st s (Suc k) a = dilate_n st s k (binary_dilation st s a)"

definition trial_at :: "idx list \<Rightarrow> window \<Rightarrow> (idx \<Rightarrow> real) \<Rightarrow> mask \<Rightarrow> nat \<Rightarrow> mask" where
  "trial_at st s dt_i peaks_i k = trial_mask s dt_i (dilate_n st s k peaks_i)"

lemma trial_at_code [code]:
  "trial_at st s dt_i peaks_i 0 = trial_mask s dt_i (dilate_n st s 0 peaks_i)"
  "trial_at st s dt_i peaks_i (Suc k) = trial_mask s dt_i (dilate_n st s (Suc k) peaks_i)"
  by (simp_all add: trial_at_def)

lemma trial_at_shift:
  "trial_at st s dt_i (binary_dilation st s pd) j = trial_at st s dt_i pd (Suc j)"
  by (simp add: trial_at_def)

fun undecided_upto :: "idx list \<Rightarrow> window \<Rightarrow> (idx \<Rightarrow> real) \<Rightarrow> mask \<Rightarrow> nat \<Rightarrow> bool" where
  "undecided_upto st s dt_i peaks_i 0 = True"
| "undecided_upto st s dt_i peaks_i (Suc k) =
     (undecided_upto st s dt_i peaks_i k \<and>
      trial_at st s dt_i peaks_i (Suc k) \<noteq> peaks_i \<and>
      trial_at st s dt_i peaks_i (Suc k) \<inter> peaks_i \<noteq> {})"

lemma undecided_uptoD:
  "undecided_upto st s dt_i peaks_i k \<Longrightarrow> 1 \<le> j \<Longrightarrow> j \<le> k \<Longrightarrow>
     trial_at st s dt_i peaks_i j \<noteq> peaks_i \<and> trial_at st s dt_i peaks_i j \<inter> peaks_i \<noteq> {}"
proof (induction k)
  case 0
  then show ?case by simp
next
  case (Suc k)
  show ?case
  proof (cases "j = Suc k")
    case True
    with Suc.prems(1) show ?thesis by simp
  next
    case False
    with Suc.prems have "j \<le> k" by simp
    with Suc show ?thesis by simp
  qed
qed

lemma saddle_loop_step:
  assumes "iters < max_iters" "trial_at st s dt_i pd 1 \<noteq> pk" "trial_at st s dt_i pd 1 \<inter> pk \<noteq> {}"
  shows "saddle_loop max_iters iters st s dt_i pk pd =
         saddle_loop max_iters (iters + 1) st s dt_i pk (binary_dilation st s pd)"
  using assms by (subst saddle_loop.simps) (simp add: trial_at_def Let_def)

lemma saddle_loop_kept:
  assumes "1 \<le> k" "iters + k \<le> max_iters"
    and "\<forall>j. 1 \<le> j \<and> j < k \<longrightarrow> trial_at st s dt_i pd j \<noteq> pk \<and> trial_at st s dt_i pd j \<inter> pk \<noteq> {}"
    and "trial_at st s dt_i pd k = pk"
  shows "saddle_loop max_iters iters st s dt_i pk pd = pk"
  using assms
proof (induction k arbitrary: iters pd)
  case 0
  then show ?case by simp
next
  case (Suc k)
  show ?case
  proof (cases "k = 0")
    case True
    with Suc.prems show ?thesis
      by (subst saddle_loop.simps) (simp add: trial_at_def Let_def)
  next
    case False
    then have u: "trial_at st s dt_i pd 1 \<noteq> pk" "trial_at st s dt_i pd 1 \<inter> pk \<noteq> {}"
      using Suc.prems(3) by auto
    have lt: "iters < max_iters" using Suc.prems(2) by simp
    have "saddle_loop max_iters (iters + 1) st s dt_i pk (binary_dilation st s pd) = pk"
    proof (rule Suc.IH)
      show "1 \<le> k" using False by simp
      show "iters + 1 + k \<le> max_iters" using Suc.prems(2) by simp
      show "\<forall>j. 1 \<le> j \<and> j < k \<longrightarrow>
              trial_at st s dt_i (binary_dilation st s pd) j \<noteq> pk \<and>
              trial_at st s dt_i (binary_dilation st s pd) j \<inter> pk \<noteq> {}"
        using Suc.prems(3) by (simp add: trial_at_shift)
      show "trial_at st s dt_i (binary_dilation st s pd) k = pk"
        using Suc.prems(4) by (simp add: trial_at_shift)
    qed
    with saddle_loop_step[OF lt u] show ?thesis by simp
  qed
qed

lemma saddle_loop_cleared:
  assumes "1 \<le> k" "iters + k \<le> max_iters"
    and "\<forall>j. 1 \<le> j \<and> j < k \<longrightarrow> trial_at st s dt_i pd j \<noteq> pk \<and> trial_at st s dt_i pd j \<inter> pk \<noteq> {}"
    and "trial_at st s dt_i pd k \<inter> pk = {}"
  shows "saddle_loop max_iters iters st s dt_i pk pd = {}"
  using assms
proof (induction k arbitrary: iters pd)
  case 0
  then show ?case by simp
next
  case (Suc k)
  show ?case
  proof (cases "k = 0")
    case True
    with Suc.prems show ?thesis
      by (subst saddle_loop.simps) (auto simp: trial_at_def Let_def)
  next
    case False
    then have u: "trial_at st s dt_i pd 1 \<noteq> pk" "trial_at st s dt_i pd 1 \<inter> pk \<noteq> {}"
      using Suc.prems(3) by auto
    have lt: "iters < max_iters" using Suc.prems(2) by simp
    have "saddle_loop max_iters (iters + 1) st s dt_i pk (binary_dilation st s pd) = {}"
    proof (rule Suc.IH)
      show "1 \<le> k" using False by simp
      show "iters + 1 + k \<le> max_iters" using Suc.prems(2) by simp
      show "\<forall>j. 1 \<le> j \<and> j < k \<longrightarrow>
              trial_at st s dt_i (binary_dilation st s pd) j \<noteq> pk \<and>
              trial_at st s dt_i (binary_dilation st s pd) j \<inter> pk \<noteq> {}"
        using Suc.prems(3) by (simp add: trial_at_shift)
      show "trial_at st s dt_i (binary_dilation st s pd) k \<inter> pk = {}"
        using Suc.prems(4) by (simp add: trial_at_shift)
    qed
    with saddle_loop_step[OF lt u] show ?thesis by simp
  qed
qed

lemma saddle_loop_cap:
  assumes "\<forall>j. 1 \<le> j \<and> iters + j \<le> max_iters \<longrightarrow>
             trial_at st s dt_i pd j \<noteq> pk \<and> trial_at st s dt_i pd j \<inter> pk \<noteq> {}"
  shows "saddle_loop max_iters iters st s dt_i pk pd = pk"
  using assms
proof (induction "max_iters - iters" arbitrary: iters pd)
  case 0
  then show ?case by (subst saddle_loop.simps) simp
next
  case (Suc n)
  then have lt: "iters < max_iters" by simp
  have u: "trial_at st s dt_i pd 1 \<noteq> pk" "trial_at st s dt_i pd 1 \<inter> pk \<noteq> {}"
    using Suc.prems lt by auto
  have "saddle_loop max_iters (iters + 1) st s dt_i pk (binary_dilation st s pd) = pk"
  proof (rule Suc.hyps(1))
    show "n = max_iters - (iters + 1)" using Suc.hyps(2) by simp
    show "\<forall>j. 1 \<le> j \<and> iters + 1 + j \<le> max_iters \<longrightarrow>
            trial_at st s dt_i (binary_dilation st s pd) j \<noteq> pk \<and>
            trial_at st s dt_i (binary_dilation st s pd) j \<inter> pk \<noteq> {}"
      using Suc.prems by (simp add: trial_at_shift)
  qed
  with saddle_loop_step[OF lt u] show ?case by simp
qed

lemma saddle_loop_cases: "saddle_loop max_iters iters st s dt_i pk pd = pk \<or>
                          saddle_loop max_iters iters st s dt_i pk pd = {}"
proof (induction max_iters iters st s dt_i pk pd rule: saddle_loop.induct)
  case (1 max_iters iters st s dt_i peaks_i peaks_dil)
  show ?case
    by (subst (1 2) saddle_loop.simps) (use 1 in \<open>auto simp: Let_def\<close>)
qed

lemma blob_in_own_window:
  assumes "i < length (label st (shape dt) peaks0)"
  shows "{x \<in> box (blob_window dt (label st (shape dt) peaks0) i). x \<in> label st (shape dt) peaks0 ! i}
           = label st (shape dt) peaks0 ! i"
proof -
  have "label st (shape dt) peaks0 ! i \<subseteq> set (indices (shape dt))"
    using label_blob_subset[OF assms] by blast
  from blob_in_window[OF assms this] show ?thesis by blast
qed

text \<open>
  The step for one blob. For the blob \<open>i\<close> that \<^verbatim>\<open>trim_saddle_points\<close> processes,
  with window \<open>s\<close>: if iteration \<open>k \<le> max_iters\<close> is the first at which the trial mask
  equals the blob's mask, or at which it shares no voxel with it, the loop stops there;
  in the first case \<^verbatim>\<open>peaks[s]\<close> becomes the blob's mask, in the second it becomes
  empty; and if no iteration up to the cap meets either condition \<^verbatim>\<open>peaks[s]\<close>
  becomes the blob's mask. Every other voxel of the window is cleared.
\<close>

theorem saddle_blob_outcome:
  fixes dt :: field and peaks0 peaks :: mask and max_iters i k :: nat
  defines "blobs \<equiv> label (cross (length (shape dt))) (shape dt) peaks0"
  defines "s \<equiv> blob_window dt blobs i"
  defines "trial \<equiv> trial_at (if length (shape dt) = 2 then cube3 2 else cube3 3) s (get dt) (blobs ! i)"
  assumes i: "i < length blobs"
  shows "(1 \<le> k \<and> k \<le> max_iters \<and>
          (\<forall>j. 1 \<le> j \<and> j < k \<longrightarrow> trial j \<noteq> blobs ! i \<and> trial j \<inter> blobs ! i \<noteq> {}) \<and>
          trial k = blobs ! i
            \<longrightarrow> saddle_blob dt max_iters blobs peaks i = (peaks - box s) \<union> blobs ! i) \<and>
         (1 \<le> k \<and> k \<le> max_iters \<and>
          (\<forall>j. 1 \<le> j \<and> j < k \<longrightarrow> trial j \<noteq> blobs ! i \<and> trial j \<inter> blobs ! i \<noteq> {}) \<and>
          trial k \<inter> blobs ! i = {}
            \<longrightarrow> saddle_blob dt max_iters blobs peaks i = peaks - box s \<and>
                saddle_blob dt max_iters blobs peaks i \<inter> blobs ! i = {}) \<and>
         ((\<forall>j. 1 \<le> j \<and> j \<le> max_iters \<longrightarrow> trial j \<noteq> blobs ! i \<and> trial j \<inter> blobs ! i \<noteq> {})
            \<longrightarrow> saddle_blob dt max_iters blobs peaks i = (peaks - box s) \<union> blobs ! i)"
proof -
  define cube where "cube = (if length (shape dt) = 2 then cube3 2 else cube3 3)"
  define b where "b = blobs ! i"
  have own: "{x \<in> box s. x \<in> blobs ! i} = b"
    unfolding s_def blobs_def b_def using i[unfolded blobs_def] by (rule blob_in_own_window)
  have sub: "b \<subseteq> box s" using own by blast
  have blob: "saddle_blob dt max_iters blobs peaks i =
                (peaks - box s) \<union> saddle_loop max_iters 0 cube s (get dt) b b"
    by (simp add: saddle_blob_def Let_def s_def[symmetric] cube_def[symmetric] own)
  have tr: "trial = trial_at cube s (get dt) b"
    by (simp add: trial_def cube_def b_def)
  have kept: "saddle_loop max_iters 0 cube s (get dt) b b = b"
    if "1 \<le> k" "k \<le> max_iters"
       "\<forall>j. 1 \<le> j \<and> j < k \<longrightarrow> trial j \<noteq> b \<and> trial j \<inter> b \<noteq> {}" "trial k = b"
    using that unfolding tr by (intro saddle_loop_kept[where k = k]) auto
  have cleared: "saddle_loop max_iters 0 cube s (get dt) b b = {}"
    if "1 \<le> k" "k \<le> max_iters"
       "\<forall>j. 1 \<le> j \<and> j < k \<longrightarrow> trial j \<noteq> b \<and> trial j \<inter> b \<noteq> {}" "trial k \<inter> b = {}"
    using that unfolding tr by (intro saddle_loop_cleared[where k = k]) auto
  have cap: "saddle_loop max_iters 0 cube s (get dt) b b = b"
    if "\<forall>j. 1 \<le> j \<and> j \<le> max_iters \<longrightarrow> trial j \<noteq> b \<and> trial j \<inter> b \<noteq> {}"
    using that unfolding tr by (intro saddle_loop_cap) auto
  show ?thesis
    unfolding blob b_def[symmetric] using kept cleared cap sub by auto
qed

definition peak_field :: field where
  "peak_field = of_rows [[1, 1], [1, 2]]"

definition slope_field :: field where
  "slope_field = of_rows [[1, 3], [1, 2]]"

definition twin_field :: field where
  "twin_field = of_rows [[2, 1], [1, 2]]"

text \<open>
  The three cases at small fields: a true peak (kept at the first iteration), a voxel on
  a slope (cleared at the first iteration), and one of two equal maxima (undecided for
  all 10 iterations, kept).
\<close>

theorem saddle_blob_outcome_witness:
  "saddle_blob peak_field 10
     (label (cross (length (shape peak_field))) (shape peak_field) {[1, 1]}) {[1, 1]} 0 = {[1, 1]} \<and>
   saddle_blob slope_field 10
     (label (cross (length (shape slope_field))) (shape slope_field) {[1, 1]}) {[1, 1]} 0 = {} \<and>
   saddle_blob twin_field 10
     (label (cross (length (shape twin_field))) (shape twin_field) {[0, 0], [1, 1]}) {[0, 0], [1, 1]} 0
       = {[0, 0]}"
proof -
  have i1: "0 < length (label (cross (length (shape peak_field))) (shape peak_field) {[1, 1]})"
    by code_simp
  have r1: "({[1, 1]} - box (blob_window peak_field
               (label (cross (length (shape peak_field))) (shape peak_field) {[1, 1]}) 0)) \<union>
            label (cross (length (shape peak_field))) (shape peak_field) {[1, 1]} ! 0 = {[1, 1]}"
    by code_simp
  have w1: "saddle_blob peak_field 10
     (label (cross (length (shape peak_field))) (shape peak_field) {[1, 1]}) {[1, 1]} 0 = {[1, 1]}"
  proof (rule trans[OF mp[OF conjunct1[OF saddle_blob_outcome[OF i1, of 1 10 "{[1, 1]}"]]] r1],
         intro conjI allI impI)
    fix j :: nat
    assume "1 \<le> j \<and> j < 1"
    then show "trial_at (if length (shape peak_field) = 2 then cube3 2 else cube3 3)
        (blob_window peak_field (label (cross (length (shape peak_field))) (shape peak_field) {[1, 1]}) 0)
        (get peak_field) (label (cross (length (shape peak_field))) (shape peak_field) {[1, 1]} ! 0) j
       \<noteq> label (cross (length (shape peak_field))) (shape peak_field) {[1, 1]} ! 0"
      by auto
  next
    fix j :: nat
    assume "1 \<le> j \<and> j < 1"
    then show "trial_at (if length (shape peak_field) = 2 then cube3 2 else cube3 3)
        (blob_window peak_field (label (cross (length (shape peak_field))) (shape peak_field) {[1, 1]}) 0)
        (get peak_field) (label (cross (length (shape peak_field))) (shape peak_field) {[1, 1]} ! 0) j
       \<inter> label (cross (length (shape peak_field))) (shape peak_field) {[1, 1]} ! 0 \<noteq> {}"
      by auto
  qed (simp, simp, code_simp)
  have i2: "0 < length (label (cross (length (shape slope_field))) (shape slope_field) {[1, 1]})"
    by code_simp
  have r2: "{[1, 1]} - box (blob_window slope_field
               (label (cross (length (shape slope_field))) (shape slope_field) {[1, 1]}) 0) = {}"
    by code_simp
  have w2: "saddle_blob slope_field 10
     (label (cross (length (shape slope_field))) (shape slope_field) {[1, 1]}) {[1, 1]} 0 = {}"
  proof (rule trans[OF conjunct1[OF mp[OF conjunct1[OF conjunct2[OF
           saddle_blob_outcome[OF i2, of 1 10 "{[1, 1]}"]]]]] r2],
         intro conjI allI impI)
    fix j :: nat
    assume "1 \<le> j \<and> j < 1"
    then show "trial_at (if length (shape slope_field) = 2 then cube3 2 else cube3 3)
        (blob_window slope_field (label (cross (length (shape slope_field))) (shape slope_field) {[1, 1]}) 0)
        (get slope_field) (label (cross (length (shape slope_field))) (shape slope_field) {[1, 1]} ! 0) j
       \<noteq> label (cross (length (shape slope_field))) (shape slope_field) {[1, 1]} ! 0"
      by auto
  next
    fix j :: nat
    assume "1 \<le> j \<and> j < 1"
    then show "trial_at (if length (shape slope_field) = 2 then cube3 2 else cube3 3)
        (blob_window slope_field (label (cross (length (shape slope_field))) (shape slope_field) {[1, 1]}) 0)
        (get slope_field) (label (cross (length (shape slope_field))) (shape slope_field) {[1, 1]} ! 0) j
       \<inter> label (cross (length (shape slope_field))) (shape slope_field) {[1, 1]} ! 0 \<noteq> {}"
      by auto
  qed (simp, simp, code_simp)
  have i3: "0 < length (label (cross (length (shape twin_field))) (shape twin_field) {[0, 0], [1, 1]})"
    by code_simp
  have r3: "({[0, 0], [1, 1]} - box (blob_window twin_field
               (label (cross (length (shape twin_field))) (shape twin_field) {[0, 0], [1, 1]}) 0)) \<union>
            label (cross (length (shape twin_field))) (shape twin_field) {[0, 0], [1, 1]} ! 0 = {[0, 0]}"
    by code_simp
  have u3: "undecided_upto (if length (shape twin_field) = 2 then cube3 2 else cube3 3)
        (blob_window twin_field (label (cross (length (shape twin_field))) (shape twin_field) {[0, 0], [1, 1]}) 0)
        (get twin_field) (label (cross (length (shape twin_field))) (shape twin_field) {[0, 0], [1, 1]} ! 0) 10"
    by code_simp
  have w3: "saddle_blob twin_field 10
     (label (cross (length (shape twin_field))) (shape twin_field) {[0, 0], [1, 1]}) {[0, 0], [1, 1]} 0
       = {[0, 0]}"
    by (rule trans[OF mp[OF conjunct2[OF conjunct2[OF
           saddle_blob_outcome[OF i3, of 1 10 "{[0, 0], [1, 1]}"]]]] r3])
       (use undecided_uptoD[OF u3] in blast)
  from w1 w2 w3 show ?thesis by blast
qed

definition comb_field :: field where
  "comb_field = of_rows [[0, 0, 0, 0, 0, 0, 0, 0, 0, 0, 5, 5],
                          [5, 0, 0, 0, 0, 0, 0, 0, 0, 0, 5, 0],
                          [0, 0, 0, 0, 0, 0, 0, 0, 0, 0, 5, 5]]"

definition ell_field :: field where
  "ell_field = of_rows [[1, 1, 4],
                         [3, 1, 1],
                         [1, 1, 1]]"

section \<open>Where the code departs from the specification\<close>

text \<open>
  Claim C3 says that the step for blob \<open>i\<close> leaves the voxels of every other blob
  unchanged. The code writes \<^verbatim>\<open>peaks[s] = peaks_i\<close> over the whole padded window, and
  \<^verbatim>\<open>peaks_i\<close> holds blob \<open>i\<close> only. In the field \<open>[[2, 1], [1, 2]]\<close> the two
  diagonal maxima are two blobs; the step for the first clears the voxel \<open>[1, 1]\<close> of
  the second, the step for the second clears \<open>[0, 0]\<close>, and one blob is left although
  both were kept by their loops.
\<close>

theorem saddle_blob_clears_other_blob:
  "find_peaks twin_field 4 None = Inr {[0, 0], [1, 1]} \<and>
   label (cross 2) (shape twin_field) {[0, 0], [1, 1]} = [{[0, 0]}, {[1, 1]}] \<and>
   saddle_blob twin_field 10 [{[0, 0]}, {[1, 1]}] {[0, 0], [1, 1]} 0 = {[0, 0]} \<and>
   saddle_blob twin_field 10 [{[0, 0]}, {[1, 1]}] {[0, 0]} 1 = {[1, 1]} \<and>
   trim_saddle_points {[0, 0], [1, 1]} twin_field 10 = Inr {[1, 1]}"
  by code_simp

text \<open>
  Claim C2 says that a blob whose loop finds a true peak, or reaches the cap undecided,
  is kept unchanged. The loop does return the blob's mask in both cases and the step
  writes it back, but the steps of the other blobs write over the whole of their
  windows. In what \<^verbatim>\<open>trim_saddle_points\<close> returns, the blob \<open>{[0, 0]}\<close> of
  \<open>twin_field\<close>, undecided for all 10 iterations, is gone, and the five-voxel blob
  of \<open>comb_field\<close>, a true peak at the first iteration, has lost three voxels.
\<close>

theorem kept_blob_lost:
  "label (cross 2) (shape twin_field) {[0, 0], [1, 1]} = [{[0, 0]}, {[1, 1]}] \<and>
   blob_window twin_field [{[0, 0]}, {[1, 1]}] 0 = [(0, 2), (0, 2)] \<and>
   undecided_upto (cube3 2) [(0, 2), (0, 2)] (get twin_field) {[0, 0]} 10 \<and>
   saddle_loop 10 0 (cube3 2) [(0, 2), (0, 2)] (get twin_field) {[0, 0]} {[0, 0]} = {[0, 0]} \<and>
   trim_saddle_points {[0, 0], [1, 1]} twin_field 10 = Inr {[1, 1]} \<and>
   label (cross 2) (shape comb_field) {[0, 10], [0, 11], [1, 0], [1, 10], [2, 10], [2, 11]}
     = [{[0, 10], [0, 11], [1, 10], [2, 10], [2, 11]}, {[1, 0]}] \<and>
   blob_window comb_field [{[0, 10], [0, 11], [1, 10], [2, 10], [2, 11]}, {[1, 0]}] 0
     = [(0, 3), (0, 12)] \<and>
   trial_at (cube3 2) [(0, 3), (0, 12)] (get comb_field)
     {[0, 10], [0, 11], [1, 10], [2, 10], [2, 11]} 1 = {[0, 10], [0, 11], [1, 10], [2, 10], [2, 11]} \<and>
   saddle_loop 10 0 (cube3 2) [(0, 3), (0, 12)] (get comb_field)
     {[0, 10], [0, 11], [1, 10], [2, 10], [2, 11]} {[0, 10], [0, 11], [1, 10], [2, 10], [2, 11]}
     = {[0, 10], [0, 11], [1, 10], [2, 10], [2, 11]} \<and>
   trim_saddle_points {[0, 10], [0, 11], [1, 0], [1, 10], [2, 10], [2, 11]} comb_field 10
     = Inr {[0, 11], [1, 0], [2, 11]}"
  by code_simp

text \<open>
  Claim C7 says that the number of connected blobs never grows from one stage to the
  next. In the 3 by 12 field \<open>comb_field\<close>, \<^verbatim>\<open>find_peaks\<close> returns two blobs;
  \<^verbatim>\<open>trim_saddle_points\<close> keeps both, but the write for the single voxel \<open>[1, 0]\<close>
  clears the columns 0 to 10 of its window and cuts the other blob in two: three blobs
  are returned (under face connectivity and under full connectivity alike).
\<close>

theorem trim_saddle_points_splits_blob:
  "find_peaks comb_field 4 None = Inr {[0, 10], [0, 11], [1, 0], [1, 10], [2, 10], [2, 11]} \<and>
   label (cross 2) (shape comb_field) {[0, 10], [0, 11], [1, 0], [1, 10], [2, 10], [2, 11]}
     = [{[0, 10], [0, 11], [1, 10], [2, 10], [2, 11]}, {[1, 0]}] \<and>
   trim_saddle_points {[0, 10], [0, 11], [1, 0], [1, 10], [2, 10], [2, 11]} comb_field 10
     = Inr {[0, 11], [1, 0], [2, 11]} \<and>
   label (cross 2) (shape comb_field) {[0, 11], [1, 0], [2, 11]} = [{[0, 11]}, {[1, 0]}, {[2, 11]}] \<and>
   label (cube3 2) (shape comb_field) {[0, 10], [0, 11], [1, 0], [1, 10], [2, 10], [2, 11]}
     = [{[0, 10], [0, 11], [1, 10], [2, 10], [2, 11]}, {[1, 0]}] \<and>
   label (cube3 2) (shape comb_field) {[0, 11], [1, 0], [2, 11]} = [{[0, 11]}, {[1, 0]}, {[2, 11]}]"
  by code_simp

lemma find_peaks_all_solid:
  assumes "length (shape (squeeze dt)) = 2 \<or> length (shape (squeeze dt)) = 3"
    and "\<forall>x. get (squeeze dt) x \<le> 0"
  shows "find_peaks dt 4 None = Inr {}"
proof -
  have "\<not> 0 < get (squeeze dt) x" for x
    using assms(2) by (simp add: not_less)
  then show ?thesis
    using assms(1) by (auto simp: find_peaks_def Let_def)
qed

lemma trim_saddle_points_empty: "trim_saddle_points {} dt max_iters = Inr {}"
  by (simp add: trim_saddle_points_def label_empty)

text \<open>
  Claim C4 says that with no peak the pipeline returns an all-zero marker image and that
  \<^verbatim>\<open>trim_nearby_peaks\<close> short-circuits. The code has no such branch: with no label,
  \<^verbatim>\<open>center_of_mass\<close> returns the empty list and \<^verbatim>\<open>sp.vstack\<close> raises
  \<^verbatim>\<open>ValueError\<close>. For every 2- or 3-dimensional input whose prepared field is nowhere
  positive, \<^verbatim>\<open>snow\<close> ends in that error, whatever the k-d tree would answer.
\<close>

theorem trim_nearby_peaks_no_peaks:
  assumes "length (shape (squeeze im0)) = 2 \<or> length (shape (squeeze im0)) = 3"
    and "\<forall>x. prepare (squeeze im0) x \<le> 0"
  shows "trim_nearby_peaks tree_query {} (snow_field prepare im0) = Inl ValueError \<and>
         snow prepare tree_query im0 = Inl ValueError"
proof -
  define dt where "dt = snow_field prepare im0"
  have sh: "shape dt = shape (squeeze im0)" and g: "get dt = prepare (squeeze im0)"
    by (simp_all add: dt_def snow_field_def Let_def)
  have sq: "shape (squeeze dt) = shape dt"
    by (simp add: squeeze_def sh)
  have nd: "length (shape dt) = 2 \<or> length (shape dt) = 3" using assms(1) sh by simp
  have le: "\<forall>x. get (squeeze dt) x \<le> 0"
    using assms(2) by (simp add: squeeze_def g)
  have f: "find_peaks dt 4 None = Inr {}"
    using nd le by (intro find_peaks_all_solid) (simp_all add: sq)
  have t: "trim_nearby_peaks tree_query {} dt = Inl ValueError"
    using nd by (auto simp: trim_nearby_peaks_def Let_def label_empty)
  show ?thesis
    unfolding snow_def Let_def dt_def[symmetric]
    by (simp add: f trim_saddle_points_empty t)
qed

theorem trim_nearby_peaks_no_peaks_witness:
  "trim_nearby_peaks nearest_other {} (snow_field (\<lambda>im x. 0) (of_rows [[0, 0], [0, 0]]))
     = Inl ValueError \<and>
   snow (\<lambda>im x. 0) nearest_other (of_rows [[0, 0], [0, 0]]) = Inl ValueError \<and>
   snow get nearest_other (of_rows [[0, 0], [0, 0]]) = Inl ValueError"
proof -
  have h1: "length (shape (squeeze (of_rows [[0, 0], [0, 0]]))) = 2 \<or>
            length (shape (squeeze (of_rows [[0, 0], [0, 0]]))) = 3"
    by (simp add: squeeze_def of_rows_def)
  have h2: "\<forall>x. (\<lambda>im x. 0 :: real) (squeeze (of_rows [[0, 0], [0, 0]])) x \<le> 0"
    by simp
  have e: "snow get nearest_other (of_rows [[0, 0], [0, 0]]) = Inl ValueError"
    by code_simp
  from trim_nearby_peaks_no_peaks[OF h1 h2, of nearest_other] e show ?thesis by simp
qed

section \<open>Peaks stay in the pore space\<close>

lemma find_peaks_pore:
  assumes "find_peaks dt r fp = Inr peaks" "x \<in> peaks"
  shows "0 < get (squeeze dt) x \<and> x \<in> set (indices (shape (squeeze dt)))"
  using assms by (auto simp: find_peaks_def Let_def split: option.splits if_splits sum.splits)

lemma saddle_blob_subset:
  assumes "peaks \<subseteq> P" "blobs ! i \<subseteq> P"
  shows "saddle_blob dt max_iters blobs peaks i \<subseteq> P"
proof -
  define s where "s = blob_window dt blobs i"
  define cube where "cube = (if length (shape dt) = 2 then cube3 2 else cube3 3)"
  define pk where "pk = {x \<in> box s. x \<in> blobs ! i}"
  have "saddle_loop max_iters 0 cube s (get dt) pk pk \<subseteq> pk"
    using saddle_loop_cases[of max_iters 0 cube s "get dt" pk pk] by auto
  moreover have "pk \<subseteq> P" using assms(2) by (auto simp: pk_def)
  ultimately show ?thesis
    using assms(1)
    by (auto simp: saddle_blob_def Let_def s_def[symmetric] cube_def[symmetric] pk_def[symmetric])
qed

lemma foldl_saddle_blob_subset:
  assumes "peaks \<subseteq> P" "\<forall>i\<in>set js. blobs ! i \<subseteq> P"
  shows "foldl (saddle_blob dt max_iters blobs) peaks js \<subseteq> P"
  using assms
proof (induction js arbitrary: peaks)
  case Nil
  then show ?case by simp
next
  case (Cons j js)
  have "saddle_blob dt max_iters blobs peaks j \<subseteq> P"
    using Cons.prems by (intro saddle_blob_subset) auto
  then show ?case using Cons by simp
qed

lemma trim_saddle_points_subset:
  assumes "trim_saddle_points peaks dt max_iters = Inr peaks'"
  shows "peaks' \<subseteq> peaks"
proof -
  define blobs where "blobs = label (cross (length (shape dt))) (shape dt) peaks"
  have b: "\<forall>i\<in>set [0..<length blobs]. blobs ! i \<subseteq> peaks"
    unfolding blobs_def using label_blob_subset by fastforce
  have "foldl (saddle_blob dt max_iters blobs) peaks [0..<length blobs] \<subseteq> peaks"
    using b by (intro foldl_saddle_blob_subset) auto
  then show ?thesis
    using assms by (auto simp: trim_saddle_points_def Let_def blobs_def[symmetric] split: if_splits)
qed

lemma foldl_clear_slice:
  "foldl (clear_slice slices) peaks ds = peaks - (\<Union>s\<in>set ds. box (slices ! s))"
  by (induction ds arbitrary: peaks) (auto simp: clear_slice_def)

lemma trim_nearby_peaks_subset:
  assumes "trim_nearby_peaks tree_query peaks dt = Inr peaks'"
  shows "peaks' \<subseteq> peaks \<inter> set (indices (shape dt))"
  using assms
  by (auto simp: trim_nearby_peaks_def Let_def foldl_clear_slice label_union split: if_splits)

lemma label_array_nonzero:
  assumes "label_array blobs x \<noteq> 0"
  shows "\<exists>i<length blobs. x \<in> blobs ! i"
proof -
  from assms obtain i where "find (\<lambda>i. x \<in> blobs ! i) [0..<length blobs] = Some i"
    by (auto simp: label_array_def split: option.splits)
  then show ?thesis by (auto simp: find_Some_iff)
qed

lemma unsqueeze_id: "1 \<notin> set sh \<Longrightarrow> length x = length sh \<Longrightarrow> unsqueeze sh x = x"
  by (induction sh x rule: unsqueeze.induct) (auto split: list.splits)

lemma squeeze_shape_no_ones: "1 \<notin> set (shape (squeeze a))"
  by (simp add: squeeze_def)

lemma snow_field_squeezed:
  "shape (squeeze (snow_field prepare im0)) = shape (snow_field prepare im0)"
  "x \<in> set (indices (shape (snow_field prepare im0))) \<Longrightarrow>
     get (squeeze (snow_field prepare im0)) x = get (snow_field prepare im0) x"
proof -
  have no: "1 \<notin> set (shape (snow_field prepare im0))"
    by (simp add: snow_field_def Let_def squeeze_def)
  then have f: "filter (\<lambda>n. n \<noteq> 1) (shape (snow_field prepare im0)) = shape (snow_field prepare im0)"
    by (intro filter_True) auto
  show "shape (squeeze (snow_field prepare im0)) = shape (snow_field prepare im0)"
    using f by (simp add: squeeze_def)
  assume "x \<in> set (indices (shape (snow_field prepare im0)))"
  then have "length x = length (shape (snow_field prepare im0))" by (rule indices_length)
  with no show "get (squeeze (snow_field prepare im0)) x = get (snow_field prepare im0) x"
    by (simp add: squeeze_def unsqueeze_id)
qed

text \<open>
  Claim C9. At every stage of \<^verbatim>\<open>snow\<close> every true voxel of the peak mask has a
  strictly positive field value: the voxels returned by \<^verbatim>\<open>find_peaks\<close>, those left
  by \<^verbatim>\<open>trim_saddle_points\<close> and by \<^verbatim>\<open>trim_nearby_peaks\<close>, and the voxels with a
  non-zero label in the marker image that \<^verbatim>\<open>snow\<close> returns.
\<close>

theorem peaks_in_pore_space:
  fixes prepare :: "field \<Rightarrow> idx \<Rightarrow> real" and im0 :: field
  defines "dt \<equiv> snow_field prepare im0"
  assumes p1: "find_peaks dt 4 None = Inr peaks1"
    and p2: "trim_saddle_points peaks1 dt 10 = Inr peaks2"
    and p3: "trim_nearby_peaks tree_query peaks2 dt = Inr peaks3"
  shows "(\<forall>x\<in>peaks1. 0 < get dt x) \<and> (\<forall>x\<in>peaks2. 0 < get dt x) \<and>
         (\<forall>x\<in>peaks3. 0 < get dt x) \<and>
         snow prepare tree_query im0 = Inr (label (cross (length (shape dt))) (shape dt) peaks3) \<and>
         (\<forall>x. label_array (label (cross (length (shape dt))) (shape dt) peaks3) x \<noteq> 0
                \<longrightarrow> 0 < get dt x)"
proof -
  have a1: "0 < get dt x" if "x \<in> peaks1" for x
  proof -
    from find_peaks_pore[OF p1 that]
    have "0 < get (squeeze dt) x" "x \<in> set (indices (shape (squeeze dt)))" by auto
    then show ?thesis
      unfolding dt_def by (simp add: snow_field_squeezed)
  qed
  have s2: "peaks2 \<subseteq> peaks1" using p2 by (rule trim_saddle_points_subset)
  have s3: "peaks3 \<subseteq> peaks2" using trim_nearby_peaks_subset[OF p3] by blast
  have a4: "0 < get dt x"
    if "label_array (label (cross (length (shape dt))) (shape dt) peaks3) x \<noteq> 0" for x
  proof -
    from label_array_nonzero[OF that] obtain i
      where "i < length (label (cross (length (shape dt))) (shape dt) peaks3)"
        "x \<in> label (cross (length (shape dt))) (shape dt) peaks3 ! i" by blast
    then have "x \<in> peaks3" using label_blob_subset by blast
    with s2 s3 a1 show ?thesis by blast
  qed
  have sn: "snow prepare tree_query im0 = Inr (label (cross (length (shape dt))) (shape dt) peaks3)"
    unfolding snow_def Let_def dt_def[symmetric] by (simp add: p1 p2 p3)
  show ?thesis using a1 s2 s3 a4 sn by blast
qed

text \<open>
  The pipeline on the field \<open>[[2, 1], [1, 2]]\<close> (not boolean, \<open>sigma = 0\<close>).
\<close>

theorem peaks_in_pore_space_witness:
  "find_peaks (snow_field get twin_field) 4 None = Inr {[0, 0], [1, 1]} \<and>
   trim_saddle_points {[0, 0], [1, 1]} (snow_field get twin_field) 10 = Inr {[1, 1]} \<and>
   trim_nearby_peaks nearest_other {[1, 1]} (snow_field get twin_field) = Inr {[1, 1]} \<and>
   0 < get (snow_field get twin_field) [0, 0] \<and>
   0 < get (snow_field get twin_field) [1, 1] \<and>
   snow get nearest_other twin_field = Inr [{[1, 1]}] \<and>
   label_array [{[1, 1]}] [1, 1] = 1"
proof -
  have p1: "find_peaks (snow_field get twin_field) 4 None = Inr {[0, 0], [1, 1]}" by code_simp
  have p2: "trim_saddle_points {[0, 0], [1, 1]} (snow_field get twin_field) 10 = Inr {[1, 1]}"
    by code_simp
  have p3: "trim_nearby_peaks nearest_other {[1, 1]} (snow_field get twin_field) = Inr {[1, 1]}"
    by code_simp
  have l: "label (cross (length (shape (snow_field get twin_field))))
             (shape (snow_field get twin_field)) {[1, 1]} = [{[1, 1]}]" by code_simp
  have a: "label_array [{[1, 1]}] [1, 1] = 1" by code_simp
  from peaks_in_pore_space[OF p1 p2 p3] l p1 p2 p3 a show ?thesis by simp
qed

section \<open>The proximity rule of trim_nearby_peaks\<close>

subsection \<open>Answers of the k-d tree\<close>

lemma closest_min:
  "closest crds p best js \<in> insert best (set js) \<and>
   (\<forall>k\<in>insert best (set js). sqdist p (crds ! closest crds p best js) \<le> sqdist p (crds ! k))"
proof (induction js arbitrary: best)
  case Nil
  show ?case by simp
next
  case (Cons j js)
  define b where "b = (if sqdist p (crds ! j) < sqdist p (crds ! best) then j else best)"
  have ih: "closest crds p b js \<in> insert b (set js)"
    "\<forall>k\<in>insert b (set js). sqdist p (crds ! closest crds p b js) \<le> sqdist p (crds ! k)"
    using Cons.IH[of b] by auto
  have b1: "b = j \<or> b = best" by (simp add: b_def)
  have b2: "sqdist p (crds ! b) \<le> sqdist p (crds ! j)" "sqdist p (crds ! b) \<le> sqdist p (crds ! best)"
    by (simp_all add: b_def)
  have c: "closest crds p best (j # js) = closest crds p b js" by (simp add: b_def)
  have le: "sqdist p (crds ! closest crds p b js) \<le> sqdist p (crds ! b)" using ih(2) by simp
  show ?case
    unfolding c using ih b1 b2 le by auto
qed

lemma first_other_valid:
  assumes "i < length crds"
  shows "second_nearest crds i (first_other crds i)"
proof (cases "filter (\<lambda>j. j \<noteq> i) [0..<length crds]")
  case Nil
  then have "\<forall>k<length crds. k = i" by (auto simp: filter_empty_conv)
  then have "length crds \<le> 1"
    by (metis assms le_less_linear less_one less_trans not_less_iff_gr_or_eq zero_less_one)
  with Nil show ?thesis by (simp add: first_other_def second_nearest_def)
next
  case (Cons j js)
  define r where "r = closest crds (crds ! i) j js"
  have cand: "set (j # js) = {k. k < length crds \<and> k \<noteq> i}"
    using Cons[symmetric] by auto
  from closest_min[of crds "crds ! i" j js]
  have r: "r \<in> set (j # js)"
    and m: "\<forall>k\<in>set (j # js). sqdist (crds ! i) (crds ! r) \<le> sqdist (crds ! i) (crds ! k)"
    by (simp_all add: r_def)
  from r cand have rr: "r < length crds" "r \<noteq> i" by auto
  have "\<forall>k<length crds. k \<noteq> i \<longrightarrow> sqdist (crds ! i) (crds ! r) \<le> sqdist (crds ! i) (crds ! k)"
    using m cand by blast
  moreover have "\<exists>k<length crds. k \<noteq> i \<and> sqdist (crds ! i) (crds ! k) = sqdist (crds ! i) (crds ! r)"
    using rr by blast
  ultimately show ?thesis
    using Cons rr by (simp add: first_other_def second_nearest_def r_def)
qed

lemma kdtree_query_nearest_other: "kdtree_query nearest_other"
  by (simp add: kdtree_query_def nearest_other_def first_other_valid)

lemma kdtree_query_length: "kdtree_query q \<Longrightarrow> length (q crds) = length crds"
  by (simp add: kdtree_query_def)


lemma unique_nearest:
  assumes q: "kdtree_query q" and i: "i < length crds" and j: "j < length crds" "j \<noteq> i"
    and pos: "0 < sqdist (crds ! i) (crds ! j)"
    and strict: "\<forall>k<length crds. k \<noteq> i \<and> k \<noteq> j \<longrightarrow> sqdist (crds ! i) (crds ! j) < sqdist (crds ! i) (crds ! k)"
  shows "q crds ! i = Some j"
proof -
  from q i have s: "second_nearest crds i (q crds ! i)" by (simp add: kdtree_query_def)
  have two: "\<not> length crds \<le> 1" using i j by linarith
  from s two obtain r where r: "q crds ! i = Some r"
    by (cases "q crds ! i") (auto simp: second_nearest_def)
  from s r have rr: "r < length crds"
    and le: "\<forall>k<length crds. k \<noteq> i \<longrightarrow> sqdist (crds ! i) (crds ! r) \<le> sqdist (crds ! i) (crds ! k)"
    and ex: "\<exists>k<length crds. k \<noteq> i \<and> sqdist (crds ! i) (crds ! k) = sqdist (crds ! i) (crds ! r)"
    by (simp_all add: second_nearest_def)
  have lej: "sqdist (crds ! i) (crds ! r) \<le> sqdist (crds ! i) (crds ! j)" using le j by blast
  from ex obtain k where k: "k < length crds" "k \<noteq> i"
    "sqdist (crds ! i) (crds ! k) = sqdist (crds ! i) (crds ! r)" by blast
  have "k = j"
  proof (rule ccontr)
    assume "k \<noteq> j"
    with strict k have "sqdist (crds ! i) (crds ! j) < sqdist (crds ! i) (crds ! k)" by blast
    with k(3) lej show False by simp
  qed
  with k(3) have eq: "sqdist (crds ! i) (crds ! r) = sqdist (crds ! i) (crds ! j)" by simp
  have "r = j"
  proof (rule ccontr)
    assume nj: "r \<noteq> j"
    show False
    proof (cases "r = i")
      case True
      then have "sqdist (crds ! i) (crds ! r) = 0" by (simp add: sqdist_def zip_same_conv_map comp_def)
      with eq pos show False by simp
    next
      case False
      with strict rr nj have "sqdist (crds ! i) (crds ! j) < sqdist (crds ! i) (crds ! r)" by blast
      with eq show False by simp
    qed
  qed
  with r show ?thesis by simp
qed




lemma drop_list_member:
  assumes "m \<in> set (drop_list crds nn ds)"
  shows "\<exists>i<length crds. contested crds nn ds i \<and> m = marked nn ds i"
  using assms by (auto simp: drop_list_def Let_def)


text \<open>\<^verbatim>\<open>sp.unique\<close> makes \<^verbatim>\<open>drop_peaks\<close> independent of the order in which the
  contested centroids are visited.\<close>

lemma drop_list_order_independent:
  assumes "set hits = {i. i < length crds \<and> contested crds nn ds i}"
  shows "sort (remdups (map (marked nn ds) hits)) = drop_list crds nn ds"
proof -
  have "set (map (marked nn ds) hits)
          = set (map (marked nn ds) (filter (contested crds nn ds) [0..<length crds]))"
    using assms by auto
  then have "sorted_list_of_set (set (map (marked nn ds) hits))
          = sorted_list_of_set (set (map (marked nn ds) (filter (contested crds nn ds) [0..<length crds])))"
    by simp
  then show ?thesis
    by (simp only: sorted_list_of_set_sort_remdups drop_list_def Let_def)
qed



lemma trim_nearby_peaks_cong:
  assumes "q (map (centroid (length (shape dt))) (label (cube3 (length (shape dt))) (shape dt) peaks0))
         = q' (map (centroid (length (shape dt))) (label (cube3 (length (shape dt))) (shape dt) peaks0))"
  shows "trim_nearby_peaks q peaks0 dt = trim_nearby_peaks q' peaks0 dt"
  unfolding trim_nearby_peaks_def Let_def assms by (rule refl)




definition tie_field :: field where
  "tie_field = of_rows [[5, 1, 5],
                         [1, 1, 1]]"

lemma two_point_query:
  assumes q: "kdtree_query q" and ab: "0 < sqdist a b" and ba: "0 < sqdist b a"
  shows "q [a, b] = [Some 1, Some 0]"
proof -
  have l: "length (q [a, b]) = 2" using kdtree_query_length[OF q, of "[a, b]"] by simp
  have n0: "q [a, b] ! 0 = Some 1"
    by (rule unique_nearest[OF q]) (use ab in \<open>auto simp: less_Suc_eq\<close>)
  have n1: "q [a, b] ! 1 = Some 0"
    by (rule unique_nearest[OF q]) (use ba in \<open>auto simp: less_Suc_eq\<close>)
  from l obtain x y where xy: "q [a, b] = [x, y]"
    by (auto simp: length_Suc_conv numeral_2_eq_2)
  with n0 n1 show ?thesis by simp
qed



lemma drop_choice_symmetric_unless_tie:
  "ds ! i \<noteq> ds ! j \<Longrightarrow> drop_choice ds i j = drop_choice ds j i"
  by (auto simp: drop_choice_def)


subsection \<open>What a run removes\<close>




text \<open>
  On the inputs below every centroid has a single nearest other centroid, so the k-d
  tree has one possible answer and the runs do not depend on how it breaks ties.
\<close>

lemma trim_nearby_peaks_any_query:
  assumes "map (centroid (length (shape dt))) (label (cube3 (length (shape dt))) (shape dt) peaks0) = c"
    and "q c = nearest_other c"
  shows "trim_nearby_peaks q peaks0 dt = trim_nearby_peaks nearest_other peaks0 dt"
  by (rule trim_nearby_peaks_cong) (simp only: assms)







subsection \<open>Ties and bounding boxes\<close>

text \<open>
  Claim C6 says that the same peak of a pair is removed whichever of the two centroids
  triggered the check. The rule is as the claim states it (\<open>marked_rule\<close>) and
  \<^verbatim>\<open>sp.unique\<close> makes the removal set independent of the order of the visits
  (\<open>drop_list_order_independent\<close>), but on a tie the rule marks the neighbour from
  either side. The two peaks of \<open>tie_field\<close>, at distance 2 with field value 5 each,
  are both contested, each marks the other, and both are removed.
\<close>

theorem tie_removes_both_peaks:
  assumes "kdtree_query tree_query"
  shows "label (cube3 2) (shape tie_field) {[0, 0], [0, 2]} = [{[0, 0]}, {[0, 2]}] \<and>
         map (centroid 2) [{[0, 0]}, {[0, 2]}] = [[0, 0], [0, 2]] \<and>
         map (get tie_field) [[0, 0], [0, 2]] = [5, 5] \<and>
         tree_query [[0, 0], [0, 2]] = [Some 1, Some 0] \<and>
         contested [[0, 0], [0, 2]] [Some 1, Some 0] [5, 5] 0 \<and>
         contested [[0, 0], [0, 2]] [Some 1, Some 0] [5, 5] 1 \<and>
         marked [Some 1, Some 0] [5, 5] 0 = 1 \<and>
         marked [Some 1, Some 0] [5, 5] 1 = 0 \<and>
         drop_choice [5, 5] 0 1 = 1 \<and> drop_choice [5, 5] 1 0 = 0 \<and>
         drop_list [[0, 0], [0, 2]] [Some 1, Some 0] [5, 5] = [0, 1] \<and>
         trim_nearby_peaks tree_query {[0, 0], [0, 2]} tie_field = Inr {}"
proof -
  have e: "map (centroid (length (shape tie_field)))
             (label (cube3 (length (shape tie_field))) (shape tie_field) {[0, 0], [0, 2]})
           = [[0, 0], [0, 2]]" by code_simp
  have i: "nearest_other [[0, 0], [0, 2]] = [Some 1, Some 0]" by code_simp
  have u: "tree_query [[0, 0], [0, 2]] = [Some 1, Some 0]"
    using assms by (rule two_point_query) (simp_all add: sqdist_def)
  have "trim_nearby_peaks tree_query {[0, 0], [0, 2]} tie_field
          = trim_nearby_peaks nearest_other {[0, 0], [0, 2]} tie_field"
    using e by (rule trim_nearby_peaks_any_query) (simp only: u i)
  also have "\<dots> = Inr {}" by code_simp
  finally have t: "trim_nearby_peaks tree_query {[0, 0], [0, 2]} tie_field = Inr {}" .
  have "label (cube3 2) (shape tie_field) {[0, 0], [0, 2]} = [{[0, 0]}, {[0, 2]}] \<and>
         map (centroid 2) [{[0, 0]}, {[0, 2]}] = [[0, 0], [0, 2]] \<and>
         map (get tie_field) [[0, 0], [0, 2]] = [5, 5] \<and>
         contested [[0, 0], [0, 2]] [Some 1, Some 0] [5, 5] 0 \<and>
         contested [[0, 0], [0, 2]] [Some 1, Some 0] [5, 5] 1 \<and>
         marked [Some 1, Some 0] [5, 5] 0 = 1 \<and>
         marked [Some 1, Some 0] [5, 5] 1 = 0 \<and>
         drop_choice [5, 5] 0 1 = 1 \<and> drop_choice [5, 5] 1 0 = 0 \<and>
         drop_list [[0, 0], [0, 2]] [Some 1, Some 0] [5, 5] = [0, 1]"
    by code_simp
  with u t show ?thesis by blast
qed

text \<open>
  The run with the answer \<open>nearest_other\<close>.
\<close>

theorem tie_removes_both_peaks_witness:
  "nearest_other [[0, 0], [0, 2]] = [Some 1, Some 0] \<and>
   drop_list [[0, 0], [0, 2]] [Some 1, Some 0] [5, 5] = [0, 1] \<and>
   trim_nearby_peaks nearest_other {[0, 0], [0, 2]} tie_field = Inr {}"
  using tie_removes_both_peaks[OF kdtree_query_nearest_other] by blast

text \<open>
  Claim C10 says that the removal step clears only the blobs of the removal set. The
  code clears the bounding box of each removed blob. In \<open>ell_field\<close> the L-shaped blob
  (index 0) is the only one marked, its bounding box is the whole 3 by 3 array, and the
  voxel \<open>[0, 2]\<close> of the unmarked blob (index 1) is cleared with it.
\<close>

theorem clear_slice_removes_unmarked_blob:
  assumes "kdtree_query tree_query"
  shows "label (cube3 2) (shape ell_field) {[0, 0], [1, 0], [2, 0], [2, 1], [2, 2], [0, 2]}
           = [{[0, 0], [1, 0], [2, 0], [2, 1], [2, 2]}, {[0, 2]}] \<and>
         map (centroid 2) [{[0, 0], [1, 0], [2, 0], [2, 1], [2, 2]}, {[0, 2]}] = [[1, 0], [0, 2]] \<and>
         map (get ell_field) [[1, 0], [0, 2]] = [3, 4] \<and>
         tree_query [[1, 0], [0, 2]] = [Some 1, Some 0] \<and>
         drop_list [[1, 0], [0, 2]] [Some 1, Some 0] [3, 4] = [0] \<and>
         find_objects 2 [{[0, 0], [1, 0], [2, 0], [2, 1], [2, 2]}, {[0, 2]}]
           = [[(0, 3), (0, 3)], [(0, 1), (2, 3)]] \<and>
         clear_slice [[(0, 3), (0, 3)], [(0, 1), (2, 3)]]
           {[0, 0], [1, 0], [2, 0], [2, 1], [2, 2], [0, 2]} 0 = {} \<and>
         trim_nearby_peaks tree_query {[0, 0], [1, 0], [2, 0], [2, 1], [2, 2], [0, 2]} ell_field
           = Inr {}"
proof -
  have e: "map (centroid (length (shape ell_field)))
             (label (cube3 (length (shape ell_field))) (shape ell_field)
                {[0, 0], [1, 0], [2, 0], [2, 1], [2, 2], [0, 2]})
           = [[1, 0], [0, 2]]" by code_simp
  have i: "nearest_other [[1, 0], [0, 2]] = [Some 1, Some 0]" by code_simp
  have u: "tree_query [[1, 0], [0, 2]] = [Some 1, Some 0]"
    using assms by (rule two_point_query) (simp_all add: sqdist_def)
  have "trim_nearby_peaks tree_query {[0, 0], [1, 0], [2, 0], [2, 1], [2, 2], [0, 2]} ell_field
          = trim_nearby_peaks nearest_other {[0, 0], [1, 0], [2, 0], [2, 1], [2, 2], [0, 2]} ell_field"
    using e by (rule trim_nearby_peaks_any_query) (simp only: u i)
  also have "\<dots> = Inr {}" by code_simp
  finally have t: "trim_nearby_peaks tree_query {[0, 0], [1, 0], [2, 0], [2, 1], [2, 2], [0, 2]}
                     ell_field = Inr {}" .
  have "label (cube3 2) (shape ell_field) {[0, 0], [1, 0], [2, 0], [2, 1], [2, 2], [0, 2]}
           = [{[0, 0], [1, 0], [2, 0], [2, 1], [2, 2]}, {[0, 2]}] \<and>
         map (centroid 2) [{[0, 0], [1, 0], [2, 0], [2, 1], [2, 2]}, {[0, 2]}] = [[1, 0], [0, 2]] \<and>
         map (get ell_field) [[1, 0], [0, 2]] = [3, 4] \<and>
         drop_list [[1, 0], [0, 2]] [Some 1, Some 0] [3, 4] = [0] \<and>
         find_objects 2 [{[0, 0], [1, 0], [2, 0], [2, 1], [2, 2]}, {[0, 2]}]
           = [[(0, 3), (0, 3)], [(0, 1), (2, 3)]] \<and>
         clear_slice [[(0, 3), (0, 3)], [(0, 1), (2, 3)]]
           {[0, 0], [1, 0], [2, 0], [2, 1], [2, 2], [0, 2]} 0 = {}"
    by code_simp
  with u t show ?thesis by blast
qed

text \<open>
  The run with the answer \<open>nearest_other\<close>.
\<close>

theorem clear_slice_removes_unmarked_blob_witness:
  "nearest_other [[1, 0], [0, 2]] = [Some 1, Some 0] \<and>
   drop_list [[1, 0], [0, 2]] [Some 1, Some 0] [3, 4] = [0] \<and>
   trim_nearby_peaks nearest_other {[0, 0], [1, 0], [2, 0], [2, 1], [2, 2], [0, 2]} ell_field
     = Inr {}"
  using clear_slice_removes_unmarked_blob[OF kdtree_query_nearest_other] by blast

end
